theory Spec2Isabelle
  imports Main "HOL-Library.AList"
begin

section \<open>JavaScript values\<close>

text \<open>
  Binding values are structured-cloneable data: \<open>undefined\<close>, \<open>null\<close>, booleans, numbers,
  strings, arrays and plain objects. An object is the list of its own enumerable
  properties in enumeration order. The program does no arithmetic on binding values: a
  number is an integer or \<open>NaN\<close>, the one value that the comparison \<open>===\<close> tells apart
  from itself (fractions, the infinities and the signed zero are left out). Values are
  copied by content, so \<open>structuredClone\<close> is the identity. The one place where the
  program stores an object of one mapping in another without cloning it is \<open>reset\<close> with
  keys, which puts the default's descriptor itself into \<open>value\<close>: what \<open>applyBindings\<close>
  then rewrites in \<open>value\<close> is rewritten in the defaults, which \<open>reset\<close> below carries out.

  A function is a value too, \<open>JFunction\<close> with its name: the program meets one only when
  it reads a member that an object inherits from \<open>Object.prototype\<close>; and so is
  \<open>Object.prototype\<close> itself, \<open>JObjectPrototype\<close>, which an object without a property
  \<open>__proto__\<close> of its own gives when it is read under that name. Callers hand in data.
\<close>

datatype jsval =
    JUndefined
  | JNull
  | JBool bool
  | JNum int
  | JNaN
  | JStr string
  | JArr "jsval list"
  | JObj "(string \<times> jsval) list"
  | JFunction string
  | JObjectPrototype

type_synonym jsobj = "(string \<times> jsval) list"

datatype jstype = TyUndefined | TyObject | TyBoolean | TyNumber | TyString | TyFunction

text \<open>The \<open>typeof\<close> operator: \<open>null\<close>, arrays and objects are all \<open>"object"\<close>.\<close>

fun typeof :: "jsval \<Rightarrow> jstype" where
  "typeof JUndefined = TyUndefined"
| "typeof JNull = TyObject"
| "typeof (JBool b) = TyBoolean"
| "typeof (JNum n) = TyNumber"
| "typeof JNaN = TyNumber"
| "typeof (JStr s) = TyString"
| "typeof (JArr xs) = TyObject"
| "typeof (JObj ps) = TyObject"
| "typeof (JFunction f) = TyFunction"
| "typeof JObjectPrototype = TyObject"

text \<open>Truthiness, as tested by \<open>!x\<close> and \<open>if (x)\<close>.\<close>

fun truthy :: "jsval \<Rightarrow> bool" where
  "truthy JUndefined = False"
| "truthy JNull = False"
| "truthy (JBool b) = b"
| "truthy (JNum n) = (n \<noteq> 0)"
| "truthy JNaN = False"
| "truthy (JStr s) = (s \<noteq> [])"
| "truthy (JArr xs) = True"
| "truthy (JObj ps) = True"
| "truthy (JFunction f) = True"
| "truthy JObjectPrototype = True"

subsection \<open>Objects\<close>

text \<open>\<open>Object.keys(o)\<close>.\<close>

definition keys_of :: "jsobj \<Rightarrow> string list" where
  "keys_of obj = map fst obj"

text \<open>\<open>o.hasOwnProperty(k)\<close>, for an object that has no property \<open>hasOwnProperty\<close> of its own.\<close>

definition hasOwnProperty :: "jsobj \<Rightarrow> string \<Rightarrow> bool" where
  "hasOwnProperty obj k = (k \<in> set (keys_of obj))"

text \<open>
  The objects of the store are plain objects (object literals, their structured clones,
  parsed JSON): each has the prototype \<open>Object.prototype\<close>, whose function members the
  \<open>in\<close> operator and a read find on it as well as its own properties, and whose accessor
  \<open>__proto__\<close> gives and sets the prototype of the object.
\<close>

definition object_prototype_names :: "string list" where
  "object_prototype_names =
     [''constructor'', ''__defineGetter__'', ''__defineSetter__'', ''hasOwnProperty'',
      ''__lookupGetter__'', ''__lookupSetter__'', ''isPrototypeOf'',
      ''propertyIsEnumerable'', ''toString'', ''valueOf'', ''toLocaleString'']"

text \<open>
  \<open>o[k] = v\<close>: an existing property keeps its place, a new one is enumerated last
  (binding keys are command names, not array indices, which JavaScript would enumerate
  first). Under \<open>__proto__\<close>, on an object without such a property of its own, the
  assignment calls the inherited setter instead: no property is created. The setter
  gives the object the prototype \<open>v\<close> when \<open>v\<close> is an object or \<open>null\<close>; the model has no
  place for another prototype than \<open>Object.prototype\<close>, so what it says about an object
  after such an assignment is right for the properties of its own only. The statements
  below that are about a patch are therefore about patches without the key \<open>__proto__\<close>.
\<close>

definition set_prop :: "jsobj \<Rightarrow> string \<Rightarrow> jsval \<Rightarrow> jsobj" where
  "set_prop obj k v =
     (if k = ''__proto__'' \<and> \<not> hasOwnProperty obj k then obj else AList.update k v obj)"

text \<open>\<open>delete o[k]\<close>.\<close>

definition delete_prop :: "jsobj \<Rightarrow> string \<Rightarrow> jsobj" where
  "delete_prop obj k = AList.delete k obj"

text \<open>
  \<open>o[k]\<close>: the own property; without one, the inherited function if \<open>k\<close> names one, the
  prototype if \<open>k\<close> is \<open>__proto__\<close>, and \<open>undefined\<close> otherwise.
\<close>

definition get_prop :: "jsobj \<Rightarrow> string \<Rightarrow> jsval" where
  "get_prop obj k =
     (case map_of obj k of
        Some v \<Rightarrow> v
      | None \<Rightarrow>
          if k \<in> set object_prototype_names then JFunction k
          else if k = ''__proto__'' then JObjectPrototype
          else JUndefined)"

text \<open>\<open>k in o\<close>: own or inherited.\<close>

definition has_in :: "jsobj \<Rightarrow> string \<Rightarrow> bool" where
  "has_in obj k =
     (hasOwnProperty obj k \<or> k \<in> set object_prototype_names \<or> k = ''__proto__'')"

subsection \<open>Equality\<close>

text \<open>
  \<open>a === b\<close> where one of the two is not an object: the same value, except that \<open>NaN\<close>
  is not equal to itself. (Two objects are \<open>===\<close> when they are one object; the program
  compares with \<open>!==\<close> only a baseline value that is not an object.)
\<close>

definition strict_equal :: "jsval \<Rightarrow> jsval \<Rightarrow> bool" where
  "strict_equal a b = (a = b \<and> a \<noteq> JNaN)"

text \<open>
  Modelled from the spec: \<open>helpers.areEqual\<close> of \<open>utils/helpers\<close> is not among the sources.
  The spec calls it structural equality of object-shaped values, with identity/equality
  for primitives: two objects are equal when they have the same property names and equal
  values under each name, two arrays when they have equal elements at each index, and
  anything else when the two are \<open>===\<close>.
\<close>

function (sequential) areEqual :: "jsval \<Rightarrow> jsval \<Rightarrow> bool" where
  "areEqual (JObj ps) (JObj qs) =
     (set (map fst ps) = set (map fst qs) \<and>
      list_all (\<lambda>k. case map_of ps k of
                       None \<Rightarrow> False
                     | Some v \<Rightarrow> (case map_of qs k of None \<Rightarrow> False | Some w \<Rightarrow> areEqual v w))
               (map fst ps))"
| "areEqual (JArr xs) (JArr ys) = list_all2 areEqual xs ys"
| "areEqual a b = strict_equal a b"
  by pat_completeness auto
termination
proof -
  have smaller: "size v < Suc (size_list (size_prod (\<lambda>_. 0) size) ps)"
    if "map_of ps k = Some v" for ps :: jsobj and k v
    using that by (induction ps) (auto split: if_splits)
  show ?thesis
    by (relation "measure (\<lambda>(a, b). size a)")
       (auto dest: smaller simp: less_Suc_eq_le size_list_estimation')
qed

text \<open>
  \<open>JSON.stringify\<close> followed by parsing: a property whose value is \<open>undefined\<close> or a
  function is dropped, an array element that is \<open>undefined\<close> or a function becomes \<open>null\<close>,
  and so does \<open>NaN\<close>; of \<open>Object.prototype\<close>, which has no enumerable property, \<open>{}\<close>
  is left.
\<close>

definition unserializable :: "jsval \<Rightarrow> bool" where
  "unserializable v = (typeof v = TyUndefined \<or> typeof v = TyFunction)"

fun to_json :: "jsval \<Rightarrow> jsval" where
  "to_json (JObj ps) =
     JObj (map (\<lambda>(k, v). (k, to_json v)) (filter (\<lambda>(k, v). \<not> unserializable v) ps))"
| "to_json (JArr xs) = JArr (map (\<lambda>x. if unserializable x then JNull else to_json x) xs)"
| "to_json JNaN = JNull"
| "to_json JObjectPrototype = JObj []"
| "to_json v = v"

definition stringify :: "jsobj \<Rightarrow> jsobj" where
  "stringify obj = (case to_json (JObj obj) of JObj ps \<Rightarrow> ps | _ \<Rightarrow> [])"

section \<open>Listeners, storage, editor\<close>

text \<open>
  A listener is a function supplied by a caller. The model gives it an identity and a
  body that may register and remove listeners of the store (\<open>on\<close>, \<open>off\<close>) and may
  throw; the argument it is called with is recorded in the log. Listeners that call
  \<open>update\<close> or \<open>reset\<close> again, or write to \<open>value\<close>, are outside the model.
\<close>

datatype action = AOn string callback | AOff string callback | AThrow
and callback = Callback nat "action list"

fun body :: "callback \<Rightarrow> action list" where
  "body (Callback i acts) = acts"

text \<open>
  What the outside world sees, in order. \<open>Invoked ev cb v\<close>: the listener \<open>cb\<close>, found in
  the list of event \<open>ev\<close>, is called with \<open>v\<close>. \<open>AddCommand c sh\<close>:
  \<open>commands.addCommand(Object.assign({}, c, sh))\<close>.
\<close>

datatype event =
    Invoked string callback jsval
  | AddCommand jsval jsval
  | CreatedFile
  | Wrote jsobj
  | Toast

text \<open>
  The file at \<open>KEYBINDING_FILE\<close>: absent, present but read as \<open>null\<close> by
  \<open>readFile("json")\<close>, or holding a JSON object.
\<close>

datatype file_state = Missing | Unreadable | Document jsobj

text \<open>The editor: its table \<open>commands.byName\<close>, a plain object of command records.\<close>

datatype editor = Editor (byName: jsobj)

datatype kb_error = TypeError | ListenerThrew | StorageFailed

text \<open>
  The fields of the class (\<open>value\<close> is \<open>kb_value\<close>, \<open>#on\<close> is \<open>on_reg\<close>), then the
  world around it: the file, whether the file system fails, and the log.
\<close>

record kb =
  initialized :: bool
  on_reg :: "(string \<times> callback list) list"
  defaultKeyBindings :: jsobj
  kb_value :: jsobj
  oldKeyBindings :: "jsobj option"
  editor :: "editor option"
  key_file :: file_state
  fs_fails :: bool
  log :: "event list"

text \<open>The store as the class constructs it, over the given defaults and file.\<close>

definition construct :: "jsobj \<Rightarrow> file_state \<Rightarrow> kb" where
  "construct KeyBindingsList f =
     \<lparr>initialized = False,
      on_reg = [(''update'', []), (''update:after'', []), (''reset'', [])],
      defaultKeyBindings = KeyBindingsList,
      kb_value = KeyBindingsList,
      oldKeyBindings = None,
      editor = None,
      key_file = f,
      fs_fails = False,
      log = []\<rparr>"

text \<open>Sequencing of steps that may throw.\<close>

definition bindE :: "kb_error + 'a \<Rightarrow> ('a \<Rightarrow> kb_error + 'b) \<Rightarrow> kb_error + 'b" where
  "bindE m f = (case m of Inl e \<Rightarrow> Inl e | Inr x \<Rightarrow> f x)"

subsection \<open>The file system\<close>

text \<open>
  Modelled from the spec: \<open>fsOperation\<close> of \<open>fileSystem\<close> is not among the sources. The
  spec gives the storage collaborator \<open>exists() -> bool\<close>, \<open>readFile(format) ->
  document|null\<close>, \<open>writeFile(text) -> void\<close> and \<open>createFile(name)\<close>, and lets its
  failures reach the caller. A created file is empty, and an empty file reads as \<open>null\<close>.
\<close>

definition fs_exists :: "kb \<Rightarrow> kb_error + bool" where
  "fs_exists s = (if fs_fails s then Inl StorageFailed else Inr (key_file s \<noteq> Missing))"

definition fs_readFile :: "kb \<Rightarrow> kb_error + jsobj option" where
  "fs_readFile s =
     (if fs_fails s then Inl StorageFailed
      else Inr (case key_file s of Document d \<Rightarrow> Some d | _ \<Rightarrow> None))"

definition fs_createFile :: "kb \<Rightarrow> kb_error + kb" where
  "fs_createFile s =
     (if fs_fails s then Inl StorageFailed
      else Inr (s\<lparr>key_file := Unreadable, log := log s @ [CreatedFile]\<rparr>))"

definition fs_writeFile :: "jsobj \<Rightarrow> kb \<Rightarrow> kb_error + kb" where
  "fs_writeFile doc s =
     (if fs_fails s then Inl StorageFailed
      else Inr (s\<lparr>key_file := Document doc, log := log s @ [Wrote doc]\<rparr>))"

section \<open>The listener registry\<close>

definition listeners_of :: "(string \<times> callback list) list \<Rightarrow> string \<Rightarrow> callback list" where
  "listeners_of reg ev = (case map_of reg ev of None \<Rightarrow> [] | Some ls \<Rightarrow> ls)"

text \<open>\<open>on(event, callback)\<close> and \<open>off(event, callback)\<close> on the registry.\<close>

definition reg_on :: "string \<Rightarrow> callback \<Rightarrow> (string \<times> callback list) list \<Rightarrow> (string \<times> callback list) list" where
  "reg_on ev cb reg = AList.update ev (listeners_of reg ev @ [cb]) reg"

definition reg_off :: "string \<Rightarrow> callback \<Rightarrow> (string \<times> callback list) list \<Rightarrow> (string \<times> callback list) list" where
  "reg_off ev cb reg = AList.update ev (remove1 cb (listeners_of reg ev)) reg"

text \<open>
  \<open>#on\<close> is a plain object too: under a name it inherits, \<open>this.#on[event]\<close> is a member
  of \<open>Object.prototype\<close> (under \<open>__proto__\<close>, \<open>Object.prototype\<close> itself), which is truthy
  and has neither \<open>push\<close> nor \<open>indexOf\<close>, so the call throws.
\<close>

definition on :: "string \<Rightarrow> callback \<Rightarrow> kb \<Rightarrow> kb_error + kb" where
  "on ev cb s =
     (if ev \<in> set (''__proto__'' # object_prototype_names) then Inl TypeError
      else Inr (s\<lparr>on_reg := reg_on ev cb (on_reg s)\<rparr>))"

definition off :: "string \<Rightarrow> callback \<Rightarrow> kb \<Rightarrow> kb_error + kb" where
  "off ev cb s =
     (if ev \<in> set (''__proto__'' # object_prototype_names) then Inl TypeError
      else Inr (s\<lparr>on_reg := reg_off ev cb (on_reg s)\<rparr>))"

text \<open>The body of a listener.\<close>

fun run_actions :: "action list \<Rightarrow> kb \<Rightarrow> kb_error + kb" where
  "run_actions [] s = Inr s"
| "run_actions (AOn ev cb # acts) s = bindE (on ev cb s) (run_actions acts)"
| "run_actions (AOff ev cb # acts) s = bindE (off ev cb s) (run_actions acts)"
| "run_actions (AThrow # acts) s = Inl ListenerThrew"

text \<open>\<open>listener(v)\<close>, for a listener found under event \<open>ev\<close>.\<close>

definition invoke :: "string \<Rightarrow> callback \<Rightarrow> jsval \<Rightarrow> kb \<Rightarrow> kb_error + kb" where
  "invoke ev cb v s = run_actions (body cb) (s\<lparr>log := log s @ [Invoked ev cb v]\<rparr>)"

section \<open>The operations of the store\<close>

text \<open>
  The asynchronous operations are run to their end one after another: a call made while
  another one waits for the file system is outside the model.
\<close>

text \<open>\<open>get(key)\<close> and \<open>has(key)\<close>.\<close>

definition get :: "string \<Rightarrow> kb \<Rightarrow> jsval" where
  "get key s = get_prop (kb_value s) key"

definition has :: "string \<Rightarrow> kb \<Rightarrow> bool" where
  "has key s = has_in (kb_value s) key"

text \<open>\<open>#getChangedKeys()\<close>.\<close>

definition getChangedKeys :: "kb \<Rightarrow> string list" where
  "getChangedKeys s =
     (case oldKeyBindings s of
        None \<Rightarrow> []
      | Some old \<Rightarrow>
          filter (\<lambda>key.
                    let v = get_prop old key in
                    if typeof v = TyObject then \<not> areEqual v (get_prop (kb_value s) key)
                    else \<not> strict_equal v (get_prop (kb_value s) key))
                 (keys_of old))"

text \<open>
  \<open>#save()\<close>: the file is created if it is missing, then written; after that the
  baseline becomes a clone of \<open>value\<close>.
\<close>

definition save :: "kb \<Rightarrow> kb_error + kb" where
  "save s =
     (let keyBindingsText = stringify (kb_value s) in
      bindE (fs_exists s) (\<lambda>present.
      bindE (if \<not> present then fs_createFile s else Inr s) (\<lambda>s1.
      bindE (fs_writeFile keyBindingsText s1) (\<lambda>s2.
      Inr (s2\<lparr>oldKeyBindings := Some (kb_value s2)\<rparr>)))))"

text \<open>
  \<open>applyBindings(...keys)\<close>, one key of its loop: a key without a command or with a
  falsy shortcut is skipped; a shortcut object with a truthy \<open>key\<close> is rewritten in place
  (\<open>bindKey = {win: key}\<close>, \<open>key\<close> deleted), which changes \<open>value\<close>; the merged command
  is handed to the editor. The editor is a collaborator: its table \<open>byName\<close> is read, and
  what \<open>addCommand\<close> is given is logged.
\<close>

definition applyBinding :: "editor \<Rightarrow> string \<Rightarrow> kb \<Rightarrow> kb" where
  "applyBinding ed key s =
     (let shortcut = get_prop (kb_value s) key;
          command = get_prop (byName ed) key
      in
        if \<not> truthy command \<or> \<not> truthy shortcut then s
        else
          (case shortcut of
             JObj ps \<Rightarrow>
               if truthy (get_prop ps ''key'') then
                 let ps' = delete_prop (set_prop ps ''bindKey'' (JObj [(''win'', get_prop ps ''key'')])) ''key''
                 in s\<lparr>kb_value := set_prop (kb_value s) key (JObj ps'),
                      log := log s @ [AddCommand command (JObj ps')]\<rparr>
               else s\<lparr>log := log s @ [AddCommand command shortcut]\<rparr>
           | _ \<Rightarrow> s\<lparr>log := log s @ [AddCommand command shortcut]\<rparr>))"

text \<open>Destructuring \<open>this.#editor\<close> throws while no editor has been recorded.\<close>

definition applyBindings :: "string list \<Rightarrow> kb \<Rightarrow> kb_error + kb" where
  "applyBindings keys s =
     (case editor s of
        None \<Rightarrow> Inl TypeError
      | Some ed \<Rightarrow> Inr (fold (applyBinding ed) keys s))"

text \<open>
  \<open>onupdate.forEach(listener => listener(this.value[key]))\<close>: the listeners carry the
  name of the event they were taken from.
\<close>

fun forEach_listeners :: "(string \<times> callback) list \<Rightarrow> string \<Rightarrow> kb \<Rightarrow> kb_error + kb" where
  "forEach_listeners [] key s = Inr s"
| "forEach_listeners ((ev, cb) # ls) key s =
     bindE (invoke ev cb (get_prop (kb_value s) key) s) (forEach_listeners ls key)"

text \<open>
  The two loops \<open>changedKeyBindings.forEach\<close> of \<open>update\<close>, which differ in the event
  name only (\<open>evname key\<close>): the list of the key's own event, if there is one, is pushed
  onto the array of listeners, and the whole array is called.
\<close>

fun dispatch :: "(string \<Rightarrow> string) \<Rightarrow> (string \<times> callback) list \<Rightarrow> string list \<Rightarrow> kb \<Rightarrow> kb_error + kb" where
  "dispatch evname onupdate [] s = Inr s"
| "dispatch evname onupdate (key # keys) s =
     (let onupdate' =
            (case map_of (on_reg s) (evname key) of
               None \<Rightarrow> onupdate
             | Some listeners \<Rightarrow> onupdate @ map (Pair (evname key)) listeners)
      in bindE (forEach_listeners onupdate' key s) (dispatch evname onupdate' keys))"

definition update_event :: "string \<Rightarrow> string" where
  "update_event key = ''update:'' @ key"

definition update_after_event :: "string \<Rightarrow> string" where
  "update_after_event key = ''update:'' @ key @ '':after''"

text \<open>
  The first argument of \<open>update\<close>: absent, a boolean (which then is \<open>showToast\<close>), or an
  object.
\<close>

datatype update_arg = NoPatch | Flag bool | Patch jsobj

text \<open>The patch step: \<open>if (key in this.value) this.value[key] = keyBindings[key]\<close>.\<close>

definition apply_patch :: "jsobj \<Rightarrow> kb \<Rightarrow> kb" where
  "apply_patch keyBindings s =
     fold (\<lambda>key s. if has_in (kb_value s) key
                    then s\<lparr>kb_value := set_prop (kb_value s) key (get_prop keyBindings key)\<rparr>
                    else s)
          (keys_of keyBindings) s"

text \<open>
  Modelled from the spec: \<open>toast\<close> is not among the sources; the spec makes it a
  fire-and-forget display of the message.
\<close>

definition toast :: "kb \<Rightarrow> kb" where
  "toast s = s\<lparr>log := log s @ [Toast]\<rparr>"

text \<open>\<open>update(keyBindings, showToast, saveFile)\<close>; both flags default to \<open>True\<close>.\<close>

definition update :: "update_arg \<Rightarrow> bool \<Rightarrow> bool \<Rightarrow> kb \<Rightarrow> kb_error + kb" where
  "update arg showToast0 saveFile s =
     (let showToast = (case arg of Flag b \<Rightarrow> b | _ \<Rightarrow> showToast0) in
      case map_of (on_reg s) ''update'' of
        None \<Rightarrow> Inl TypeError
      | Some upd \<Rightarrow>
      (case map_of (on_reg s) ''update:after'' of
        None \<Rightarrow> Inl TypeError
      | Some upd_after \<Rightarrow>
          let onupdate = map (Pair ''update'') upd;
              onupdateAfter = map (Pair ''update:after'') upd_after;
              s1 = (case arg of Patch keyBindings \<Rightarrow> apply_patch keyBindings s | _ \<Rightarrow> s);
              changedKeyBindings = getChangedKeys s1
          in
            bindE (dispatch update_event onupdate changedKeyBindings s1) (\<lambda>s2.
            bindE (applyBindings changedKeyBindings s2) (\<lambda>s3.
            bindE (if saveFile then save s3 else Inr s3) (\<lambda>s4.
            dispatch update_after_event onupdateAfter changedKeyBindings
              (if showToast then toast s4 else s4))))))"

text \<open>
  \<open>this.#on.reset.forEach(onreset => onreset(this.value))\<close> runs over the registry's own
  array, which the listeners may change meanwhile: \<open>forEach\<close> visits the indices below
  the length the array had at the start, each if it still exists when reached.
\<close>

function forEach_reset :: "nat \<Rightarrow> nat \<Rightarrow> kb \<Rightarrow> kb_error + kb" where
  "forEach_reset i n s =
     (if n \<le> i then Inr s
      else if i < length (listeners_of (on_reg s) ''reset'')
      then bindE (invoke ''reset'' (listeners_of (on_reg s) ''reset'' ! i) (JObj (kb_value s)) s)
                 (forEach_reset (Suc i) n)
      else forEach_reset (Suc i) n s)"
  by pat_completeness auto
termination
  by (relation "measure (\<lambda>(i, n, s). n - i)") auto

declare forEach_reset.simps [simp del]

text \<open>
  \<open>reset(...keyBindings)\<close>. With keys, the loop asks
  \<open>this.#defaultKeyBindings.hasOwnProperty(key)\<close>: a default named \<open>hasOwnProperty\<close> hides
  the inherited method, and calling a binding value throws, at the first key.

  The loop stores the default's own descriptor in \<open>value\<close>: while \<open>update\<close> runs, the
  descriptor of such a key in \<open>value\<close> and the one in the defaults are one object, so a
  rewrite by \<open>applyBindings\<close> is a rewrite of both. \<open>shared_defaults keyBindings v d\<close> is
  what the defaults \<open>d\<close> have become when \<open>update\<close> returns with the value \<open>v\<close>. (The two
  stay one object after the call, but \<open>update\<close> rewrites the descriptor of a changed key
  only, and this one equals the baseline that \<open>update\<close> has just saved, until a patch or
  another \<open>reset\<close> puts another object in its place.)
\<close>

definition shared_defaults :: "string list \<Rightarrow> jsobj \<Rightarrow> jsobj \<Rightarrow> jsobj" where
  "shared_defaults keyBindings v d =
     fold (\<lambda>key d. if hasOwnProperty d key \<and> hasOwnProperty v key
                    then set_prop d key (get_prop v key) else d)
          keyBindings d"

definition reset :: "string list \<Rightarrow> kb \<Rightarrow> kb_error + kb" where
  "reset keyBindings s =
     bindE
       (if keyBindings = [] then
          update (Flag False) True True (s\<lparr>kb_value := defaultKeyBindings s\<rparr>)
        else if hasOwnProperty (defaultKeyBindings s) ''hasOwnProperty'' then Inl TypeError
        else
          bindE
            (update (Flag False) True True
               (fold (\<lambda>key s. if \<not> hasOwnProperty (defaultKeyBindings s) key then s
                              else s\<lparr>kb_value := set_prop (kb_value s) key
                                                    (get_prop (defaultKeyBindings s) key)\<rparr>)
                     keyBindings s))
            (\<lambda>s'. Inr (s'\<lparr>defaultKeyBindings :=
                             shared_defaults keyBindings (kb_value s') (defaultKeyBindings s')\<rparr>)))
       (\<lambda>s'. case map_of (on_reg s') ''reset'' of
                None \<Rightarrow> Inl TypeError
              | Some onreset \<Rightarrow> forEach_reset 0 (length onreset) s')"

text \<open>
  The loop of \<open>init\<close> over \<open>Object.entries(this.#defaultKeyBindings)\<close>, on the document
  read from the file: \<open>value\<close> is the entry's value, an entry of the defaults.
\<close>

definition heal :: "jsobj \<Rightarrow> jsobj \<Rightarrow> jsobj" where
  "heal defaults keyBindings =
     fold (\<lambda>(key, v) keyBindings.
             if v = JUndefined \<or> typeof v \<noteq> typeof (get_prop defaults key)
             then set_prop keyBindings key (get_prop defaults key)
             else keyBindings)
          defaults keyBindings"

text \<open>
  \<open>init(editor)\<close>. The healed document is a local of \<open>init\<close>; nothing reads it after
  the loop.
\<close>

definition init :: "editor \<Rightarrow> kb \<Rightarrow> kb_error + kb" where
  "init ed s =
     (if initialized s then Inr s
      else
        let s0 = s\<lparr>editor := Some ed, initialized := True\<rparr> in
        bindE (fs_exists s0) (\<lambda>present.
          if \<not> present then
            bindE (save s0) (\<lambda>s1.
              Inr (s1\<lparr>kb_value := defaultKeyBindings s1,
                      oldKeyBindings := Some (defaultKeyBindings s1)\<rparr>))
          else
            bindE (fs_readFile s0) (\<lambda>keyBindings.
              case keyBindings of
                None \<Rightarrow> Inr s0
              | Some doc \<Rightarrow>
                  (let healed = heal (defaultKeyBindings s0) doc in reset [] s0))))"

section \<open>Notions used in the statements\<close>

text \<open>\<open>nan_free v\<close>: \<open>NaN\<close> occurs nowhere in \<open>v\<close>.\<close>

fun nan_free :: "jsval \<Rightarrow> bool" where
  "nan_free JNaN = False"
| "nan_free (JArr xs) = list_all nan_free xs"
| "nan_free (JObj ps) = list_all (\<lambda>(k, v). nan_free v) ps"
| "nan_free v = True"

text \<open>
  \<open>same_store s s'\<close>: \<open>s'\<close> differs from \<open>s\<close> in the listener registry and the log at
  most. \<open>same_but_value s s'\<close>: in \<open>value\<close> and the log at most.
\<close>

definition same_store :: "kb \<Rightarrow> kb \<Rightarrow> bool" where
  "same_store s s' =
     (initialized s' = initialized s \<and> defaultKeyBindings s' = defaultKeyBindings s \<and>
      kb_value s' = kb_value s \<and> oldKeyBindings s' = oldKeyBindings s \<and>
      editor s' = editor s \<and> key_file s' = key_file s \<and> fs_fails s' = fs_fails s)"

definition same_but_value :: "kb \<Rightarrow> kb \<Rightarrow> bool" where
  "same_but_value s s' =
     (initialized s' = initialized s \<and> defaultKeyBindings s' = defaultKeyBindings s \<and>
      on_reg s' = on_reg s \<and> oldKeyBindings s' = oldKeyBindings s \<and>
      editor s' = editor s \<and> key_file s' = key_file s \<and> fs_fails s' = fs_fails s)"

text \<open>
  The events of calling the listeners \<open>ls\<close> for \<open>key\<close>, each with the value of \<open>key\<close>
  in \<open>v\<close>; and the events of a whole loop over \<open>keys\<close> that calls the \<open>i\<close>-th list of
  \<open>gs\<close> for the \<open>i\<close>-th key.
\<close>

definition calls :: "string \<Rightarrow> jsobj \<Rightarrow> (string \<times> callback) list \<Rightarrow> event list" where
  "calls key v ls = map (\<lambda>(ev, cb). Invoked ev cb (get_prop v key)) ls"

definition phase_trace :: "string list \<Rightarrow> jsobj \<Rightarrow> (string \<times> callback) list list \<Rightarrow> event list" where
  "phase_trace keys v gs = concat (map2 (\<lambda>k g. calls k v g) keys gs)"


text \<open>
  \<open>normalizes ed v key\<close>: \<open>applyBindings\<close> rewrites the descriptor of \<open>key\<close> in \<open>v\<close>: the
  editor has a command of that name and the descriptor is an object with a truthy \<open>key\<close>.
\<close>

definition normalizes :: "editor \<Rightarrow> jsobj \<Rightarrow> string \<Rightarrow> bool" where
  "normalizes ed v key =
     (truthy (get_prop (byName ed) key) \<and>
      (case get_prop v key of JObj ps \<Rightarrow> truthy (get_prop ps ''key'') | _ \<Rightarrow> False))"

fun is_AddCommand :: "event \<Rightarrow> bool" where
  "is_AddCommand (AddCommand c sh) = True"
| "is_AddCommand e = False"


text \<open>
  The event names are built by concatenation, so they overlap. \<open>after_named key\<close>: the
  key is named \<open>after\<close>, or its name ends in \<open>:after\<close>; the event \<open>update:<key>\<close> of such a
  key is \<open>update:after\<close>, or the event \<open>update:<x>:after\<close> of the key \<open>x\<close> before the
  suffix. \<open>after_event ev\<close>: \<open>ev\<close> is \<open>update:after\<close> or \<open>update:<x>:after\<close> for some \<open>x\<close>,
  an event of the second loop.
\<close>

definition after_named :: "string \<Rightarrow> bool" where
  "after_named key = (key = ''after'' \<or> drop (length key - 6) key = '':after'')"

definition after_event :: "string \<Rightarrow> bool" where
  "after_event ev = (take 7 ev = ''update:'' \<and> after_named (drop 7 ev))"


text \<open>The state after the patch step of \<open>update\<close>, and whether \<open>update\<close> shows the toast.\<close>

definition patched :: "update_arg \<Rightarrow> kb \<Rightarrow> kb" where
  "patched arg s = (case arg of Patch keyBindings \<Rightarrow> apply_patch keyBindings s | _ \<Rightarrow> s)"

definition toasts :: "update_arg \<Rightarrow> bool \<Rightarrow> bool" where
  "toasts arg showToast = (case arg of Flag b \<Rightarrow> b | _ \<Rightarrow> showToast)"

text \<open>The patch step over a list of keys.\<close>

definition patch_keys :: "jsobj \<Rightarrow> string list \<Rightarrow> kb \<Rightarrow> kb" where
  "patch_keys keyBindings ks s =
     fold (\<lambda>key s. if has_in (kb_value s) key
                    then s\<lparr>kb_value := set_prop (kb_value s) key (get_prop keyBindings key)\<rparr>
                    else s) ks s"

text \<open>The invariant of the key sets.\<close>

definition keys_agree :: "kb \<Rightarrow> bool" where
  "keys_agree s = (set (keys_of (kb_value s)) = set (keys_of (defaultKeyBindings s)))"

subsection \<open>Example stores\<close>


text \<open>
  A store whose default descriptor of \<open>save\<close> has a plain \<open>key\<close>, with a command \<open>save\<close> in
  the editor, after \<open>init\<close> without a file and \<open>update({save: {key: "Ctrl-X"}})\<close>; and the
  same store after \<open>reset()\<close>.
\<close>

definition normalized_store :: kb where
  "normalized_store =
     \<lparr>initialized = True,
      on_reg = [(''update'', []), (''update:after'', []), (''reset'', [])],
      defaultKeyBindings = [(''save'', JObj [(''key'', JStr ''Ctrl-S'')])],
      kb_value = [(''save'', JObj [(''bindKey'', JObj [(''win'', JStr ''Ctrl-X'')])])],
      oldKeyBindings = Some [(''save'', JObj [(''bindKey'', JObj [(''win'', JStr ''Ctrl-X'')])])],
      editor = Some (Editor [(''save'', JObj [(''name'', JStr ''save'')])]),
      key_file = Document [(''save'', JObj [(''bindKey'', JObj [(''win'', JStr ''Ctrl-X'')])])],
      fs_fails = False,
      log = [CreatedFile,
             Wrote [(''save'', JObj [(''key'', JStr ''Ctrl-S'')])],
             AddCommand (JObj [(''name'', JStr ''save'')])
               (JObj [(''bindKey'', JObj [(''win'', JStr ''Ctrl-X'')])]),
             Wrote [(''save'', JObj [(''bindKey'', JObj [(''win'', JStr ''Ctrl-X'')])])],
             Toast]\<rparr>"

definition normalized_store_reset :: kb where
  "normalized_store_reset =
     normalized_store
       \<lparr>kb_value := [(''save'', JObj [(''bindKey'', JObj [(''win'', JStr ''Ctrl-S'')])])],
        oldKeyBindings := Some [(''save'', JObj [(''bindKey'', JObj [(''win'', JStr ''Ctrl-S'')])])],
        key_file := Document [(''save'', JObj [(''bindKey'', JObj [(''win'', JStr ''Ctrl-S'')])])],
        log := log normalized_store @
               [AddCommand (JObj [(''name'', JStr ''save'')])
                  (JObj [(''bindKey'', JObj [(''win'', JStr ''Ctrl-S'')])]),
                Wrote [(''save'', JObj [(''bindKey'', JObj [(''win'', JStr ''Ctrl-S'')])])]]\<rparr>"

text \<open>
  A store whose binding \<open>save\<close> is a string and differs from the default; listeners on
  \<open>update\<close> and \<open>reset\<close>.
\<close>

definition plain_store :: kb where
  "plain_store =
     \<lparr>initialized = True,
      on_reg = [(''update'', [Callback 1 []]), (''update:after'', []), (''reset'', [Callback 2 []])],
      defaultKeyBindings = [(''save'', JStr ''Ctrl-S''), (''find'', JObj [(''key'', JStr ''Ctrl-F'')])],
      kb_value = [(''save'', JStr ''Ctrl-X''), (''find'', JObj [(''key'', JStr ''Ctrl-F'')])],
      oldKeyBindings = Some [(''save'', JStr ''Ctrl-X''), (''find'', JObj [(''key'', JStr ''Ctrl-F'')])],
      editor = Some (Editor [(''save'', JObj [(''name'', JStr ''save'')]), (''find'', JObj [(''name'', JStr ''find'')])]),
      key_file = Document [(''save'', JStr ''Ctrl-X''), (''find'', JObj [(''key'', JStr ''Ctrl-F'')])],
      fs_fails = False,
      log = []\<rparr>"




section \<open>Evaluation\<close>

lemmas kb_defs = construct_def init_def update_def reset_def save_def bindE_def
  fs_exists_def fs_readFile_def fs_createFile_def fs_writeFile_def
  getChangedKeys_def apply_patch_def applyBindings_def applyBinding_def
  keys_of_def get_prop_def set_prop_def delete_prop_def hasOwnProperty_def has_in_def
  strict_equal_def shared_defaults_def
  object_prototype_names_def stringify_def unserializable_def toast_def invoke_def on_def off_def
  reg_on_def reg_off_def listeners_of_def update_event_def update_after_event_def
  heal_def Let_def forEach_reset.simps

section \<open>Steps that may throw\<close>

lemma bindE_Inr: "bindE m f = Inr y \<Longrightarrow> \<exists>x. m = Inr x \<and> f x = Inr y"
  by (cases m) (simp_all add: bindE_def)


section \<open>Structural equality and the diff\<close>

lemma areEqual_refl: "nan_free v \<Longrightarrow> areEqual v v"
proof (induction v)
  case (JArr xs)
  then show ?case by (auto simp: list_all_iff intro!: list.rel_refl_strong)
next
  case (JObj ps)
  have "areEqual v v" if "map_of ps k = Some v" for k v
  proof -
    from that have "(k, v) \<in> set ps" by (rule map_of_SomeD)
    then show ?thesis using JObj by (force simp: list_all_iff)
  qed
  then show ?case
    by (auto simp: list_all_iff split: option.splits dest: weak_map_of_SomeI)
qed (simp_all add: strict_equal_def)

lemma areEqual_primitive: "typeof a \<noteq> TyObject \<Longrightarrow> areEqual a b = strict_equal a b"
  by (cases a) auto

lemma getChangedKeys_filter:
  "oldKeyBindings s = Some old \<Longrightarrow>
   getChangedKeys s =
     filter (\<lambda>k. \<not> areEqual (get_prop old k) (get_prop (kb_value s) k)) (keys_of old)"
  unfolding getChangedKeys_def
  by (auto intro!: filter_cong simp: Let_def areEqual_primitive)

lemma nan_free_get_prop: "nan_free (JObj obj) \<Longrightarrow> nan_free (get_prop obj k)"
  by (auto simp: get_prop_def list_all_iff split: option.splits dest: map_of_SomeD)

lemma getChangedKeys_same:
  "oldKeyBindings s = Some (kb_value s) \<Longrightarrow> nan_free (JObj (kb_value s)) \<Longrightarrow>
   getChangedKeys s = []"
  by (simp add: getChangedKeys_filter areEqual_refl nan_free_get_prop)

section \<open>Calling listeners\<close>

lemma same_store_refl [simp]: "same_store s s"
  by (simp add: same_store_def)

lemma same_store_trans: "same_store s t \<Longrightarrow> same_store t u \<Longrightarrow> same_store s u"
  by (simp add: same_store_def)

lemma on_same: "on ev cb s = Inr s' \<Longrightarrow> same_store s s' \<and> log s' = log s"
  by (auto simp: on_def same_store_def split: if_splits)

lemma off_same: "off ev cb s = Inr s' \<Longrightarrow> same_store s s' \<and> log s' = log s"
  by (auto simp: off_def same_store_def split: if_splits)

lemma run_actions_same:
  "run_actions acts s = Inr s' \<Longrightarrow> same_store s s' \<and> log s' = log s"
proof (induction acts arbitrary: s)
  case Nil
  then show ?case by simp
next
  case (Cons a acts)
  show ?case
  proof (cases a)
    case (AOn ev cb)
    with Cons.prems obtain t where "on ev cb s = Inr t" "run_actions acts t = Inr s'"
      by (auto dest: bindE_Inr)
    with on_same [of ev cb s t] Cons.IH [of t] show ?thesis
      by (auto intro: same_store_trans)
  next
    case (AOff ev cb)
    with Cons.prems obtain t where "off ev cb s = Inr t" "run_actions acts t = Inr s'"
      by (auto dest: bindE_Inr)
    with off_same [of ev cb s t] Cons.IH [of t] show ?thesis
      by (auto intro: same_store_trans)
  next
    case AThrow
    with Cons.prems show ?thesis by simp
  qed
qed

lemma invoke_same:
  "invoke ev cb v s = Inr s' \<Longrightarrow> same_store s s' \<and> log s' = log s @ [Invoked ev cb v]"
  unfolding invoke_def by (drule run_actions_same) (simp add: same_store_def)

lemma forEach_listeners_log:
  "forEach_listeners ls key s = Inr s' \<Longrightarrow>
   same_store s s' \<and> log s' = log s @ calls key (kb_value s) ls"
proof (induction ls arbitrary: s)
  case Nil
  then show ?case by (simp add: calls_def)
next
  case (Cons l ls)
  obtain ev cb where l: "l = (ev, cb)" by (cases l)
  from Cons.prems l obtain t where
    t: "invoke ev cb (get_prop (kb_value s) key) s = Inr t" and
    rest: "forEach_listeners ls key t = Inr s'"
    by (auto dest: bindE_Inr)
  from invoke_same [OF t] Cons.IH [OF rest] l show ?case
    by (auto simp: calls_def same_store_def)
qed

lemma dispatch_Cons:
  "dispatch evname acc (key # keys) s =
     bindE (forEach_listeners (acc @ map (Pair (evname key)) (listeners_of (on_reg s) (evname key))) key s)
           (dispatch evname (acc @ map (Pair (evname key)) (listeners_of (on_reg s) (evname key))) keys)"
  by (simp add: listeners_of_def Let_def split: option.splits)

lemma dispatch_trace:
  "dispatch evname acc keys s = Inr s' \<Longrightarrow>
   same_store s s' \<and>
   (\<exists>gs. length gs = length keys \<and>
         log s' = log s @ phase_trace keys (kb_value s) gs \<and>
         (\<forall>i<length keys. \<exists>t.
            dispatch evname acc (take i keys) s = Inr t \<and>
            gs ! i = (if i = 0 then acc else gs ! (i - 1)) @
                     map (Pair (evname (keys ! i))) (listeners_of (on_reg t) (evname (keys ! i)))))"
proof (induction keys arbitrary: acc s)
  case Nil
  then show ?case by (simp add: phase_trace_def)
next
  case (Cons key keys)
  define g where "g = acc @ map (Pair (evname key)) (listeners_of (on_reg s) (evname key))"
  from Cons.prems obtain t where
    t: "forEach_listeners g key s = Inr t" and rest: "dispatch evname g keys t = Inr s'"
    unfolding dispatch_Cons g_def by (auto dest: bindE_Inr)
  from forEach_listeners_log [OF t] have
    st: "same_store s t" and lt: "log t = log s @ calls key (kb_value s) g" by simp_all
  from Cons.IH [OF rest] obtain gs where
    ss: "same_store t s'" and len: "length gs = length keys" and
    lg: "log s' = log t @ phase_trace keys (kb_value t) gs" and
    live: "\<forall>i<length keys. \<exists>u.
            dispatch evname g (take i keys) t = Inr u \<and>
            gs ! i = (if i = 0 then g else gs ! (i - 1)) @
                     map (Pair (evname (keys ! i))) (listeners_of (on_reg u) (evname (keys ! i)))"
    by blast
  have vt: "kb_value t = kb_value s" using st by (simp add: same_store_def)
  have "log s' = log s @ phase_trace (key # keys) (kb_value s) (g # gs)"
    using lg lt vt by (simp add: phase_trace_def)
  moreover have "\<exists>u. dispatch evname acc (take i (key # keys)) s = Inr u \<and>
            (g # gs) ! i = (if i = 0 then acc else (g # gs) ! (i - 1)) @
                     map (Pair (evname ((key # keys) ! i)))
                         (listeners_of (on_reg u) (evname ((key # keys) ! i)))"
    if "i < length (key # keys)" for i
  proof (cases i)
    case 0
    then show ?thesis by (simp add: g_def)
  next
    case (Suc j)
    with that have "j < length keys" by simp
    with live obtain u where
      u: "dispatch evname g (take j keys) t = Inr u" and
      gj: "gs ! j = (if j = 0 then g else gs ! (j - 1)) @
                     map (Pair (evname (keys ! j))) (listeners_of (on_reg u) (evname (keys ! j)))"
      by blast
    have "dispatch evname acc (take i (key # keys)) s = Inr u"
      using Suc u t unfolding g_def by (simp add: dispatch_Cons bindE_def del: dispatch.simps)
    moreover have "(g # gs) ! i = (if i = 0 then acc else (g # gs) ! (i - 1)) @
                     map (Pair (evname ((key # keys) ! i)))
                         (listeners_of (on_reg u) (evname ((key # keys) ! i)))"
      using Suc gj by (cases j) simp_all
    ultimately show ?thesis by blast
  qed
  ultimately show ?case
    using same_store_trans [OF st ss] len by (intro conjI exI [of _ "g # gs"]) simp_all
qed







lemma update_event_not_generic [simp]: "update_event k \<noteq> ''update''"
  by (simp add: update_event_def)

lemma update_after_event_not_generic [simp]: "update_after_event k \<noteq> ''update:after''"
proof
  assume "update_after_event k = ''update:after''"
  then have "length (update_after_event k) = length ''update:after''" by simp
  then show False by (simp add: update_after_event_def)
qed

lemma forEach_reset_same:
  "forEach_reset i n s = Inr s' \<Longrightarrow> same_store s s'"
proof (induction i n s rule: forEach_reset.induct)
  case (1 i n s)
  show ?case
  proof (cases "n \<le> i")
    case True
    with "1.prems" show ?thesis by (simp add: forEach_reset.simps)
  next
    case False
    show ?thesis
    proof (cases "i < length (listeners_of (on_reg s) ''reset'')")
      case True
      with False "1.prems" obtain t where
        t: "invoke ''reset'' (listeners_of (on_reg s) ''reset'' ! i) (JObj (kb_value s)) s = Inr t"
        and r: "forEach_reset (Suc i) n t = Inr s'"
        by (subst (asm) forEach_reset.simps) (auto dest: bindE_Inr)
      from "1.IH"(1) [OF False True r] invoke_same [OF t] show ?thesis
        by (blast intro: same_store_trans)
    next
      case nolistener: False
      with False "1.prems" have "forEach_reset (Suc i) n s = Inr s'"
        by (subst (asm) forEach_reset.simps) simp
      from "1.IH"(2) [OF False nolistener this] show ?thesis .
    qed
  qed
qed

section \<open>Editor synchronization and persistence\<close>

lemma applyBinding_frame:
  "same_but_value s (applyBinding ed key s) \<and>
   (\<exists>cmds. log (applyBinding ed key s) = log s @ cmds \<and> list_all is_AddCommand cmds)"
  by (auto simp: applyBinding_def same_but_value_def Let_def split: option.splits jsval.splits)

lemma applyBinding_value:
  "\<not> normalizes ed (kb_value s) key \<Longrightarrow> kb_value (applyBinding ed key s) = kb_value s"
  by (auto simp: applyBinding_def normalizes_def Let_def split: option.splits jsval.splits)

lemma fold_applyBinding_frame:
  "same_but_value s (fold (applyBinding ed) keys s) \<and>
   (\<exists>cmds. log (fold (applyBinding ed) keys s) = log s @ cmds \<and> list_all is_AddCommand cmds)"
proof (induction keys arbitrary: s)
  case Nil
  then show ?case by (simp add: same_but_value_def)
next
  case (Cons key keys)
  from applyBinding_frame [of s ed key] obtain c1 where
    f1: "same_but_value s (applyBinding ed key s)" and
    l1: "log (applyBinding ed key s) = log s @ c1" "list_all is_AddCommand c1"
    by blast
  from Cons.IH [of "applyBinding ed key s"] obtain c2 where
    f2: "same_but_value (applyBinding ed key s) (fold (applyBinding ed) keys (applyBinding ed key s))" and
    l2: "log (fold (applyBinding ed) keys (applyBinding ed key s)) = log (applyBinding ed key s) @ c2"
        "list_all is_AddCommand c2"
    by blast
  from f1 f2 l1 l2 show ?case
    by (auto simp: same_but_value_def intro!: exI [of _ "c1 @ c2"])
qed

lemma fold_applyBinding_value:
  "\<forall>k\<in>set keys. \<not> normalizes ed (kb_value s) k \<Longrightarrow>
   kb_value (fold (applyBinding ed) keys s) = kb_value s"
  by (induction keys arbitrary: s) (simp_all add: applyBinding_value)

lemma save_result:
  "save s = Inr s' \<Longrightarrow>
   kb_value s' = kb_value s \<and> oldKeyBindings s' = Some (kb_value s) \<and>
   key_file s' = Document (stringify (kb_value s)) \<and>
   log s' = log s @ (if key_file s = Missing then [CreatedFile] else []) @
                    [Wrote (stringify (kb_value s))] \<and>
   initialized s' = initialized s \<and> defaultKeyBindings s' = defaultKeyBindings s \<and>
   on_reg s' = on_reg s \<and> editor s' = editor s \<and> fs_fails s' = fs_fails s"
  by (auto simp: save_def fs_exists_def fs_createFile_def fs_writeFile_def bindE_def Let_def
           split: if_splits)

section \<open>The steps of update and reset\<close>

lemma update_steps:
  assumes "update arg showToast saveFile s = Inr s'"
  shows "\<exists>s2 s3 s4.
     dispatch update_event (map (Pair ''update'') (listeners_of (on_reg s) ''update''))
       (getChangedKeys (patched arg s)) (patched arg s) = Inr s2 \<and>
     applyBindings (getChangedKeys (patched arg s)) s2 = Inr s3 \<and>
     (if saveFile then save s3 else Inr s3) = Inr s4 \<and>
     dispatch update_after_event
       (map (Pair ''update:after'') (listeners_of (on_reg s) ''update:after''))
       (getChangedKeys (patched arg s)) (if toasts arg showToast then toast s4 else s4) = Inr s'"
proof -
  from assms obtain upd where u: "map_of (on_reg s) ''update'' = Some upd"
    by (auto simp: update_def Let_def split: option.splits)
  from assms u obtain upd_after where ua: "map_of (on_reg s) ''update:after'' = Some upd_after"
    by (auto simp: update_def Let_def split: option.splits)
  from assms u ua have
    "bindE (dispatch update_event (map (Pair ''update'') upd)
              (getChangedKeys (patched arg s)) (patched arg s)) (\<lambda>s2.
     bindE (applyBindings (getChangedKeys (patched arg s)) s2) (\<lambda>s3.
     bindE (if saveFile then save s3 else Inr s3) (\<lambda>s4.
     dispatch update_after_event (map (Pair ''update:after'') upd_after)
       (getChangedKeys (patched arg s)) (if toasts arg showToast then toast s4 else s4)))) = Inr s'"
    by (simp add: update_def Let_def patched_def toasts_def)
  then obtain s2 s3 s4 where
    "dispatch update_event (map (Pair ''update'') upd)
       (getChangedKeys (patched arg s)) (patched arg s) = Inr s2"
    "applyBindings (getChangedKeys (patched arg s)) s2 = Inr s3"
    "(if saveFile then save s3 else Inr s3) = Inr s4"
    "dispatch update_after_event (map (Pair ''update:after'') upd_after)
       (getChangedKeys (patched arg s)) (if toasts arg showToast then toast s4 else s4) = Inr s'"
    by (blast dest: bindE_Inr)
  then show ?thesis using u ua by (auto simp: listeners_of_def)
qed

lemma update_flag_result:
  assumes upd: "update (Flag b) showToast True s = Inr s'"
    and ed: "editor s = Some ed"
    and nn: "\<forall>k\<in>set (getChangedKeys s). \<not> normalizes ed (kb_value s) k"
  shows "kb_value s' = kb_value s \<and> oldKeyBindings s' = Some (kb_value s) \<and>
         defaultKeyBindings s' = defaultKeyBindings s \<and> editor s' = Some ed"
proof -
  have p: "patched (Flag b) s = s" by (simp add: patched_def)
  from update_steps [OF upd] obtain s2 s3 s4 where
    d1: "dispatch update_event (map (Pair ''update'') (listeners_of (on_reg s) ''update''))
           (getChangedKeys s) s = Inr s2" and
    a: "applyBindings (getChangedKeys s) s2 = Inr s3" and
    sv: "save s3 = Inr s4" and
    d2: "dispatch update_after_event
           (map (Pair ''update:after'') (listeners_of (on_reg s) ''update:after''))
           (getChangedKeys s) (if toasts (Flag b) showToast then toast s4 else s4) = Inr s'"
    unfolding p by auto
  from dispatch_trace [OF d1] have s2: "same_store s s2" by simp
  then have e2: "editor s2 = Some ed" and v2: "kb_value s2 = kb_value s"
    using ed by (simp_all add: same_store_def)
  from a e2 have s3: "s3 = fold (applyBinding ed) (getChangedKeys s) s2"
    by (simp add: applyBindings_def)
  have v3: "kb_value s3 = kb_value s"
    unfolding s3 using fold_applyBinding_value [of "getChangedKeys s" ed s2] nn v2 by simp
  have f3: "same_but_value s2 s3"
    unfolding s3 using fold_applyBinding_frame [of s2 ed "getChangedKeys s"] by simp
  from save_result [OF sv] have
    s4: "kb_value s4 = kb_value s3" "oldKeyBindings s4 = Some (kb_value s3)"
        "defaultKeyBindings s4 = defaultKeyBindings s3" "editor s4 = editor s3"
    by simp_all
  from dispatch_trace [OF d2] have
    "same_store (if toasts (Flag b) showToast then toast s4 else s4) s'" by simp
  then have "kb_value s' = kb_value s4" "oldKeyBindings s' = oldKeyBindings s4"
    "defaultKeyBindings s' = defaultKeyBindings s4" "editor s' = editor s4"
    by (auto simp: same_store_def toast_def split: if_splits)
  with s4 v3 f3 s2 e2 show ?thesis
    by (simp add: same_store_def same_but_value_def)
qed

lemma reset_all_steps:
  assumes "reset [] s = Inr s'"
  shows "\<exists>u. update (Flag False) True True (s\<lparr>kb_value := defaultKeyBindings s\<rparr>) = Inr u \<and>
             same_store u s'"
proof -
  from assms obtain u where
    u: "update (Flag False) True True (s\<lparr>kb_value := defaultKeyBindings s\<rparr>) = Inr u" and
    r: "(case map_of (on_reg u) ''reset'' of
           None \<Rightarrow> Inl TypeError
         | Some onreset \<Rightarrow> forEach_reset 0 (length onreset) u) = Inr s'"
    unfolding reset_def by (auto dest: bindE_Inr)
  from r have "same_store u s'"
    by (auto split: option.splits dest: forEach_reset_same)
  with u show ?thesis by blast
qed

section \<open>The patch step\<close>


lemma hasOwnProperty_set_prop:
  "hasOwnProperty (set_prop obj k v) k' =
     (k' = k \<and> k \<noteq> ''__proto__'' \<or> hasOwnProperty obj k')"
  by (auto simp: hasOwnProperty_def keys_of_def set_prop_def dom_update)

lemma has_in_set_prop: "has_in (set_prop obj k v) k' = (k' = k \<or> has_in obj k')"
  by (auto simp: has_in_def hasOwnProperty_set_prop)

lemma patch_keys_Cons:
  "patch_keys p (k # ks) s =
     patch_keys p ks (if has_in (kb_value s) k
                      then s\<lparr>kb_value := set_prop (kb_value s) k (get_prop p k)\<rparr> else s)"
  by (simp add: patch_keys_def)

lemma patch_keys_Nil [simp]: "patch_keys p [] s = s"
  by (simp add: patch_keys_def)

lemma apply_patch_keys: "apply_patch p s = patch_keys p (keys_of p) s"
  by (simp add: apply_patch_def patch_keys_def)



lemma patch_keys_has_in:
  "has_in (kb_value s) k \<Longrightarrow> has_in (kb_value (patch_keys p ks s)) k"
  by (induction ks arbitrary: s) (auto simp: patch_keys_Cons has_in_set_prop)


lemma patch_keys_frame:
  "same_but_value s (patch_keys p ks s) \<and> log (patch_keys p ks s) = log s"
proof (induction ks arbitrary: s)
  case Nil
  then show ?case by (simp add: same_but_value_def)
next
  case (Cons a ks)
  from Cons.IH [of "if has_in (kb_value s) a
                    then s\<lparr>kb_value := set_prop (kb_value s) a (get_prop p a)\<rparr> else s"]
  show ?case by (auto simp: patch_keys_Cons same_but_value_def split: if_splits)
qed


section \<open>The key set of value\<close>

lemma keys_of_set_prop_own:
  "hasOwnProperty obj k \<Longrightarrow> keys_of (set_prop obj k v) = keys_of obj"
  by (simp add: hasOwnProperty_def keys_of_def set_prop_def update_keys)

lemma keys_of_set_prop_proto: "keys_of (set_prop obj ''__proto__'' v) = keys_of obj"
  by (simp add: hasOwnProperty_def keys_of_def set_prop_def update_keys)

lemma get_prop_JObj_own: "get_prop obj k = JObj ps \<Longrightarrow> hasOwnProperty obj k"
  by (auto simp: get_prop_def hasOwnProperty_def keys_of_def split: option.splits if_splits
           dest: map_of_SomeD intro: rev_image_eqI)

lemma applyBinding_keys: "keys_of (kb_value (applyBinding ed key s)) = keys_of (kb_value s)"
  by (auto simp: applyBinding_def Let_def keys_of_set_prop_own get_prop_JObj_own
           split: jsval.splits)

lemma fold_applyBinding_keys:
  "keys_of (kb_value (fold (applyBinding ed) keys s)) = keys_of (kb_value s)"
  by (induction keys arbitrary: s) (simp_all add: applyBinding_keys)

lemma patch_keys_keys:
  "\<forall>k\<in>set ks. k \<in> set object_prototype_names \<longrightarrow> hasOwnProperty (kb_value s) k \<Longrightarrow>
   keys_of (kb_value (patch_keys p ks s)) = keys_of (kb_value s)"
proof (induction ks arbitrary: s)
  case Nil
  then show ?case by simp
next
  case (Cons k ks)
  show ?case
  proof (cases "has_in (kb_value s) k")
    case True
    with Cons.prems have own: "hasOwnProperty (kb_value s) k \<or> k = ''__proto__''"
      by (auto simp: has_in_def)
    then have same: "keys_of (set_prop (kb_value s) k (get_prop p k)) = keys_of (kb_value s)"
      by (auto simp: keys_of_set_prop_own keys_of_set_prop_proto)
    have "keys_of (kb_value (patch_keys p ks (s\<lparr>kb_value := set_prop (kb_value s) k (get_prop p k)\<rparr>)))
          = keys_of (kb_value (s\<lparr>kb_value := set_prop (kb_value s) k (get_prop p k)\<rparr>))"
      using Cons.prems by (intro Cons.IH) (simp add: hasOwnProperty_set_prop)
    with True same show ?thesis by (simp add: patch_keys_Cons)
  next
    case False
    with Cons show ?thesis by (simp add: patch_keys_Cons)
  qed
qed

lemma update_keys_and_defaults:
  assumes upd: "update arg showToast saveFile s = Inr s'"
  shows "keys_of (kb_value s') = keys_of (kb_value (patched arg s)) \<and>
         defaultKeyBindings s' = defaultKeyBindings (patched arg s)"
proof -
  from update_steps [OF upd] obtain s2 s3 s4 where
    d1: "dispatch update_event (map (Pair ''update'') (listeners_of (on_reg s) ''update''))
           (getChangedKeys (patched arg s)) (patched arg s) = Inr s2" and
    a: "applyBindings (getChangedKeys (patched arg s)) s2 = Inr s3" and
    sv: "(if saveFile then save s3 else Inr s3) = Inr s4" and
    d2: "dispatch update_after_event
           (map (Pair ''update:after'') (listeners_of (on_reg s) ''update:after''))
           (getChangedKeys (patched arg s)) (if toasts arg showToast then toast s4 else s4) = Inr s'"
    by blast
  from dispatch_trace [OF d1] have 2: "same_store (patched arg s) s2" by simp
  from a obtain ed where s3: "s3 = fold (applyBinding ed) (getChangedKeys (patched arg s)) s2"
    by (auto simp: applyBindings_def split: option.splits)
  have 3: "keys_of (kb_value s3) = keys_of (kb_value s2)"
    "defaultKeyBindings s3 = defaultKeyBindings s2"
    unfolding s3 using fold_applyBinding_frame [of s2 ed "getChangedKeys (patched arg s)"]
    by (simp_all add: fold_applyBinding_keys same_but_value_def)
  from sv have 4: "kb_value s4 = kb_value s3" "defaultKeyBindings s4 = defaultKeyBindings s3"
    by (auto dest: save_result split: if_splits)
  from dispatch_trace [OF d2] have
    "same_store (if toasts arg showToast then toast s4 else s4) s'" by simp
  then have 5: "kb_value s' = kb_value s4" "defaultKeyBindings s' = defaultKeyBindings s4"
    by (auto simp: same_store_def toast_def split: if_splits)
  from 2 3 4 5 show ?thesis by (simp add: same_store_def)
qed

text \<open>
  \<open>update\<close> keeps the keys of \<open>value\<close> when no key of the patch is an inherited name that
  \<open>value\<close> does not have itself.
\<close>

lemma update_keeps_keys:
  assumes "update arg showToast saveFile s = Inr s'"
    and "\<And>p. arg = Patch p \<Longrightarrow>
           \<forall>k\<in>set (keys_of p). k \<in> set object_prototype_names \<longrightarrow> hasOwnProperty (kb_value s) k"
  shows "keys_of (kb_value s') = keys_of (kb_value s) \<and>
         defaultKeyBindings s' = defaultKeyBindings s"
proof -
  have "keys_of (kb_value (patched arg s)) = keys_of (kb_value s) \<and>
        defaultKeyBindings (patched arg s) = defaultKeyBindings s"
  proof (cases arg)
    case (Patch p)
    with assms(2) patch_keys_frame [of s p "keys_of p"] show ?thesis
      by (simp add: patched_def apply_patch_keys patch_keys_keys same_but_value_def)
  qed (simp_all add: patched_def)
  with update_keys_and_defaults [OF assms(1)] show ?thesis by simp
qed

lemma reset_fold_keys:
  "set (keys_of (defaultKeyBindings s)) \<subseteq> set (keys_of (kb_value s)) \<Longrightarrow>
   keys_of (kb_value (fold (\<lambda>key s. if \<not> hasOwnProperty (defaultKeyBindings s) key then s
                           else s\<lparr>kb_value := set_prop (kb_value s) key
                                                 (get_prop (defaultKeyBindings s) key)\<rparr>) ks s))
     = keys_of (kb_value s) \<and>
   defaultKeyBindings (fold (\<lambda>key s. if \<not> hasOwnProperty (defaultKeyBindings s) key then s
                           else s\<lparr>kb_value := set_prop (kb_value s) key
                                                 (get_prop (defaultKeyBindings s) key)\<rparr>) ks s)
     = defaultKeyBindings s"
proof (induction ks arbitrary: s)
  case Nil
  then show ?case by simp
next
  case (Cons k ks)
  show ?case
  proof (cases "hasOwnProperty (defaultKeyBindings s) k")
    case True
    with Cons.prems have own: "hasOwnProperty (kb_value s) k"
      by (auto simp: hasOwnProperty_def)
    let ?t = "s\<lparr>kb_value := set_prop (kb_value s) k (get_prop (defaultKeyBindings s) k)\<rparr>"
    have "set (keys_of (defaultKeyBindings ?t)) \<subseteq> set (keys_of (kb_value ?t))"
      using Cons.prems own by (simp add: keys_of_set_prop_own)
    from Cons.IH [OF this] True own show ?thesis by (simp add: keys_of_set_prop_own)
  next
    case False
    with Cons show ?thesis by simp
  qed
qed

lemma shared_defaults_keys: "keys_of (shared_defaults ks v d) = keys_of d"
  unfolding shared_defaults_def
  by (induction ks arbitrary: d) (simp_all add: keys_of_set_prop_own)

text \<open>\<open>reset\<close>, with or without keys, keeps the key set of \<open>value\<close> equal to that of the defaults.\<close>

lemma reset_keeps_keys:
  assumes r: "reset ks s = Inr s'" and inv: "keys_agree s"
  shows "keys_agree s'"
proof -
  let ?f = "\<lambda>key s. if \<not> hasOwnProperty (defaultKeyBindings s) key then s
                     else s\<lparr>kb_value := set_prop (kb_value s) key
                                           (get_prop (defaultKeyBindings s) key)\<rparr>"
  define t where "t = (if ks = [] then s\<lparr>kb_value := defaultKeyBindings s\<rparr> else fold ?f ks s)"
  have "\<exists>u w. update (Flag False) True True t = Inr u \<and> kb_value w = kb_value u \<and>
          keys_of (defaultKeyBindings w) = keys_of (defaultKeyBindings u) \<and>
          (case map_of (on_reg w) ''reset'' of
             None \<Rightarrow> Inl TypeError
           | Some onreset \<Rightarrow> forEach_reset 0 (length onreset) w) = Inr s'"
  proof (cases "ks = []")
    case True
    with r obtain u where
      "update (Flag False) True True t = Inr u"
      "(case map_of (on_reg u) ''reset'' of
             None \<Rightarrow> Inl TypeError
           | Some onreset \<Rightarrow> forEach_reset 0 (length onreset) u) = Inr s'"
      unfolding reset_def t_def by (auto dest!: bindE_Inr)
    then show ?thesis by blast
  next
    case False
    with r obtain u where
      u: "update (Flag False) True True t = Inr u" and
      rs: "(case map_of (on_reg u) ''reset'' of
             None \<Rightarrow> Inl TypeError
           | Some onreset \<Rightarrow>
               forEach_reset 0 (length onreset)
                 (u\<lparr>defaultKeyBindings :=
                      shared_defaults ks (kb_value u) (defaultKeyBindings u)\<rparr>)) = Inr s'"
      unfolding reset_def t_def by (auto dest!: bindE_Inr split: if_splits)
    show ?thesis
      by (intro exI [of _ u]
                exI [of _ "u\<lparr>defaultKeyBindings :=
                              shared_defaults ks (kb_value u) (defaultKeyBindings u)\<rparr>"])
         (use u rs in \<open>simp add: shared_defaults_keys\<close>)
  qed
  then obtain u w where
    u: "update (Flag False) True True t = Inr u" and
    w: "kb_value w = kb_value u" "keys_of (defaultKeyBindings w) = keys_of (defaultKeyBindings u)" and
    rs: "(case map_of (on_reg w) ''reset'' of
           None \<Rightarrow> Inl TypeError
         | Some onreset \<Rightarrow> forEach_reset 0 (length onreset) w) = Inr s'"
    by blast
  have t: "keys_agree t \<and> defaultKeyBindings t = defaultKeyBindings s"
  proof (cases "ks = []")
    case True
    then show ?thesis by (simp add: t_def keys_agree_def)
  next
    case False
    from inv have "set (keys_of (defaultKeyBindings s)) \<subseteq> set (keys_of (kb_value s))"
      by (simp add: keys_agree_def)
    from reset_fold_keys [OF this, of ks] False inv show ?thesis
      by (simp add: t_def keys_agree_def)
  qed
  from update_keeps_keys [OF u] have "keys_of (kb_value u) = keys_of (kb_value t)"
    "defaultKeyBindings u = defaultKeyBindings t" by simp_all
  moreover from rs have "same_store w s'"
    by (auto split: option.splits dest: forEach_reset_same)
  ultimately show ?thesis using t w by (simp add: keys_agree_def same_store_def)
qed

section \<open>The healing loop\<close>

lemma heal_fold_identity:
  "\<forall>(key, v)\<in>set ps. v \<noteq> JUndefined \<and> get_prop defaults key = v \<Longrightarrow>
   fold (\<lambda>(key, v) keyBindings.
           if v = JUndefined \<or> typeof v \<noteq> typeof (get_prop defaults key)
           then set_prop keyBindings key (get_prop defaults key)
           else keyBindings) ps doc = doc"
  by (induction ps arbitrary: doc) auto

text \<open>
  When the defaults have no key twice and no value \<open>undefined\<close>, the loop changes no
  document.
\<close>

lemma heal_identity:
  assumes "distinct (keys_of defaults)" and "JUndefined \<notin> snd ` set defaults"
  shows "heal defaults doc = doc"
proof -
  have "v \<noteq> JUndefined \<and> get_prop defaults key = v" if "(key, v) \<in> set defaults" for key v
  proof -
    from assms(1) that have "map_of defaults key = Some v"
      by (simp add: keys_of_def)
    moreover from assms(2) that have "v \<noteq> JUndefined" by force
    ultimately show ?thesis by (simp add: get_prop_def)
  qed
  then have "\<forall>(key, v)\<in>set defaults. v \<noteq> JUndefined \<and> get_prop defaults key = v" by auto
  from heal_fold_identity [OF this] show ?thesis by (simp add: heal_def)
qed

section \<open>Initialization against a document\<close>

text \<open>
  Whatever document the file holds, a store just constructed leaves \<open>init\<close> with the
  defaults as its \<open>value\<close>, and with the defaults written to the file.
\<close>

lemma init_document_ignored:
  "\<exists>s'. init ed (construct defaults (Document doc)) = Inr s' \<and>
        kb_value s' = defaults \<and> key_file s' = Document (stringify defaults)"
  by (simp add: init_def construct_def reset_def update_def save_def bindE_def
        fs_exists_def fs_readFile_def fs_writeFile_def getChangedKeys_def
        applyBindings_def forEach_reset.simps Let_def)

section \<open>The trace of update\<close>





lemma after_named_suffix [simp]: "after_named (x @ '':after'')"
  by (simp add: after_named_def)

lemma after_event_update_event [simp]: "after_event (update_event k) = after_named k"
  by (simp add: after_event_def update_event_def)

lemma after_event_update_after_event [simp]: "after_event (update_after_event k)"
  by (simp add: after_event_def update_after_event_def)

lemma after_event_generic [simp]: "after_event ''update:after''" "\<not> after_event ''update''"
  by (simp_all add: after_event_def after_named_def)


lemma update_after_event_not_update [simp]: "update_after_event k \<noteq> ''update''"
  by (simp add: update_after_event_def)




section \<open>The claims\<close>

text \<open>
  C1. A first store starts without a file, then \<open>update({save: "Ctrl-X"})\<close> persists
  \<open>{save: "Ctrl-X"}\<close>. A fresh store initialized against that file ends with the default
  \<open>{save: "Ctrl-S"}\<close> as its \<open>value\<close>, not with the persisted mapping, and has written
  the default over the file: \<open>init\<close> reads the document and then calls \<open>reset()\<close>, which
  never looks at it.
\<close>

theorem init_discards_persisted_document:
  "(case bindE (init (Editor []) (construct [(''save'', JStr ''Ctrl-S'')] Missing))
           (update (Patch [(''save'', JStr ''Ctrl-X'')]) True True) of
      Inl e \<Rightarrow> False
    | Inr s \<Rightarrow>
        kb_value s = [(''save'', JStr ''Ctrl-X'')] \<and>
        key_file s = Document [(''save'', JStr ''Ctrl-X'')] \<and>
        (case init (Editor []) (construct [(''save'', JStr ''Ctrl-S'')] (key_file s)) of
           Inl e \<Rightarrow> False
         | Inr s' \<Rightarrow>
             kb_value s' = [(''save'', JStr ''Ctrl-S'')] \<and>
             key_file s' = Document [(''save'', JStr ''Ctrl-S'')]))"
  by (simp add: kb_defs)

text \<open>
  C2. With a listener 1 on \<open>update\<close> and a listener 2 on \<open>update:a\<close>, an update that
  changes \<open>a\<close> and \<open>c\<close> calls 1 and 2 with the value of \<open>a\<close>, and then 1 and again 2 with
  the value of \<open>c\<close>: the listeners of \<open>update:a\<close> stay in the array for the keys after \<open>a\<close>.
\<close>

theorem specific_listener_called_for_later_key:
  "(case bindE
           (bindE
              (bindE
                 (on ''update'' (Callback 1 [])
                    (construct [(''a'', JNum 1), (''b'', JNum 2), (''c'', JNum 3)] Missing))
                 (on ''update:a'' (Callback 2 [])))
              (init (Editor [])))
           (update (Patch [(''a'', JNum 10), (''c'', JNum 30)]) True True) of
      Inl e \<Rightarrow> False
    | Inr s \<Rightarrow>
        log s = [CreatedFile,
                 Wrote [(''a'', JNum 1), (''b'', JNum 2), (''c'', JNum 3)],
                 Invoked ''update'' (Callback 1 []) (JNum 10),
                 Invoked ''update:a'' (Callback 2 []) (JNum 10),
                 Invoked ''update'' (Callback 1 []) (JNum 30),
                 Invoked ''update:a'' (Callback 2 []) (JNum 30),
                 Wrote [(''a'', JNum 10), (''b'', JNum 2), (''c'', JNum 30)],
                 Toast])"
  by (simp add: kb_defs)

text \<open>
  C3. The loop of \<open>init\<close> tests the default's own value against the default's type, not
  the document's value: a document with a number where the default is a string, and
  without the key \<open>find\<close>, comes out of the loop as it went in.
\<close>

theorem heal_keeps_mistyped_and_absent:
  "heal [(''save'', JStr ''Ctrl-S''), (''find'', JStr ''Ctrl-F'')] [(''save'', JNum 5)]
     = [(''save'', JNum 5)]"
  by (simp add: heal_def get_prop_def)




text \<open>
  C5. \<open>update\<close> guards its assignment with \<open>key in this.value\<close>, which also holds for
  the names inherited from \<open>Object.prototype\<close> (\<open>reset\<close> asks \<open>hasOwnProperty\<close>): the
  patch \<open>{toString: "Ctrl-T"}\<close> adds the key \<open>toString\<close> to \<open>value\<close>, which the defaults
  do not have. (The lemmas on the key set above show that \<open>reset\<close> keeps the key sets
  equal, and that \<open>update\<close> keeps the keys of \<open>value\<close> for every patch without such a
  name.)
\<close>

theorem update_adds_inherited_name:
  "(case bindE (init (Editor []) (construct [(''save'', JStr ''Ctrl-S'')] Missing))
           (update (Patch [(''toString'', JStr ''Ctrl-T'')]) True True) of
      Inl e \<Rightarrow> False
    | Inr s \<Rightarrow>
        keys_of (kb_value s) = [''save'', ''toString''] \<and>
        keys_of (defaultKeyBindings s) = [''save''])"
  by (simp add: kb_defs)

text \<open>
  C6. Without a baseline nothing has changed. With a baseline \<open>old\<close>, the changed keys
  are the keys of \<open>old\<close>, in its order, whose value in \<open>old\<close> is not structurally equal
  to the value under the same key in \<open>value\<close>; no other key is reported; and for a
  baseline value that is not object-shaped, not being structurally equal is being a
  different value, or being \<open>NaN\<close>, which \<open>!==\<close> tells apart from itself. For the baseline \<open>{a:1, b:{x:1}}\<close> and the current \<open>{a:1, b:{x:2}}\<close> the
  changed keys are \<open>b\<close> alone.
\<close>

theorem getChangedKeys_diff:
  "(oldKeyBindings s = None \<longrightarrow> getChangedKeys s = []) \<and>
   (\<forall>old. oldKeyBindings s = Some old \<longrightarrow>
      getChangedKeys s =
        filter (\<lambda>k. \<not> areEqual (get_prop old k) (get_prop (kb_value s) k)) (keys_of old) \<and>
      (\<forall>k. k \<notin> set (keys_of old) \<longrightarrow> k \<notin> set (getChangedKeys s)) \<and>
      (\<forall>k. typeof (get_prop old k) \<noteq> TyObject \<longrightarrow>
         (k \<in> set (getChangedKeys s)) =
         (k \<in> set (keys_of old) \<and>
          (get_prop old k \<noteq> get_prop (kb_value s) k \<or> get_prop old k = JNaN)))) \<and>
   getChangedKeys
     (s\<lparr>oldKeyBindings := Some [(''a'', JNum 1), (''b'', JObj [(''x'', JNum 1)])],
        kb_value := [(''a'', JNum 1), (''b'', JObj [(''x'', JNum 2)])]\<rparr>) = [''b'']"
proof (intro conjI allI impI)
  show "getChangedKeys s = []" if "oldKeyBindings s = None"
    using that by (simp add: getChangedKeys_def)
next
  fix old assume old: "oldKeyBindings s = Some old"
  show flt: "getChangedKeys s =
        filter (\<lambda>k. \<not> areEqual (get_prop old k) (get_prop (kb_value s) k)) (keys_of old)"
    by (rule getChangedKeys_filter [OF old])
  show "k \<notin> set (getChangedKeys s)" if "k \<notin> set (keys_of old)" for k
    using that by (simp add: flt)
  show "(k \<in> set (getChangedKeys s)) =
         (k \<in> set (keys_of old) \<and>
          (get_prop old k \<noteq> get_prop (kb_value s) k \<or> get_prop old k = JNaN))"
    if "typeof (get_prop old k) \<noteq> TyObject" for k
    using that by (auto simp: flt areEqual_primitive strict_equal_def)
next
  show "getChangedKeys
     (s\<lparr>oldKeyBindings := Some [(''a'', JNum 1), (''b'', JObj [(''x'', JNum 1)])],
        kb_value := [(''a'', JNum 1), (''b'', JObj [(''x'', JNum 2)])]\<rparr>) = [''b'']"
    by (simp add: getChangedKeys_def keys_of_def get_prop_def strict_equal_def)
qed

theorem getChangedKeys_diff_witness:
  "getChangedKeys
     (construct [] Missing
        \<lparr>oldKeyBindings :=
           Some [(''a'', JNum 1), (''b'', JObj [(''x'', JNum 1)]), (''c'', JStr ''p'')],
         kb_value :=
           [(''a'', JNum 1), (''b'', JObj [(''x'', JNum 2)]), (''c'', JStr ''q''),
            (''d'', JNum 4)]\<rparr>)
     = [''b'', ''c''] \<and>
   getChangedKeys (construct [(''a'', JNum 1)] Missing) = []"
  using getChangedKeys_diff [of "construct [] Missing
        \<lparr>oldKeyBindings :=
           Some [(''a'', JNum 1), (''b'', JObj [(''x'', JNum 1)]), (''c'', JStr ''p'')],
         kb_value :=
           [(''a'', JNum 1), (''b'', JObj [(''x'', JNum 2)]), (''c'', JStr ''q''),
            (''d'', JNum 4)]\<rparr>"]
    getChangedKeys_diff [of "construct [(''a'', JNum 1)] Missing"]
  by (simp add: construct_def keys_of_def get_prop_def strict_equal_def)




text \<open>
  C8, as amended. When two calls of \<open>reset()\<close> in a row return normally,
  \<open>applyBindings\<close> rewrites the default descriptor of none of the keys the first call
  finds changed, and \<open>NaN\<close> occurs nowhere in the defaults, then \<open>value\<close> equals the
  defaults after each call, and the diff of the second call finds no changed key.
\<close>

theorem reset_twice:
  assumes r1: "reset [] s = Inr s1" and r2: "reset [] s1 = Inr s2"
    and ed: "editor s = Some ed"
    and nn: "\<forall>k\<in>set (getChangedKeys (s\<lparr>kb_value := defaultKeyBindings s\<rparr>)).
               \<not> normalizes ed (defaultKeyBindings s) k"
    and nan: "nan_free (JObj (defaultKeyBindings s))"
  shows "kb_value s1 = defaultKeyBindings s \<and> kb_value s2 = defaultKeyBindings s \<and>
         defaultKeyBindings s2 = defaultKeyBindings s \<and>
         getChangedKeys (s1\<lparr>kb_value := defaultKeyBindings s1\<rparr>) = []"
proof -
  from reset_all_steps [OF r1] obtain u1 where
    u1: "update (Flag False) True True (s\<lparr>kb_value := defaultKeyBindings s\<rparr>) = Inr u1" and
    f1: "same_store u1 s1" by blast
  from update_flag_result [OF u1, of ed] ed nn have
    "kb_value u1 = defaultKeyBindings s" "oldKeyBindings u1 = Some (defaultKeyBindings s)"
    "defaultKeyBindings u1 = defaultKeyBindings s" "editor u1 = Some ed"
    by simp_all
  with f1 have s1: "kb_value s1 = defaultKeyBindings s"
    "oldKeyBindings s1 = Some (defaultKeyBindings s)"
    "defaultKeyBindings s1 = defaultKeyBindings s" "editor s1 = Some ed"
    by (simp_all add: same_store_def)
  have diff2: "getChangedKeys (s1\<lparr>kb_value := defaultKeyBindings s1\<rparr>) = []"
    using s1 nan by (simp add: getChangedKeys_same)
  from reset_all_steps [OF r2] obtain u2 where
    u2: "update (Flag False) True True (s1\<lparr>kb_value := defaultKeyBindings s1\<rparr>) = Inr u2" and
    f2: "same_store u2 s2" by blast
  from update_flag_result [OF u2, of ed] s1 diff2 have
    "kb_value u2 = defaultKeyBindings s" "defaultKeyBindings u2 = defaultKeyBindings s"
    by simp_all
  with f2 have "kb_value s2 = defaultKeyBindings s" "defaultKeyBindings s2 = defaultKeyBindings s"
    by (simp_all add: same_store_def)
  with s1 diff2 show ?thesis by simp
qed

theorem reset_twice_witness:
  "\<exists>s1 s2. reset [] plain_store = Inr s1 \<and> reset [] s1 = Inr s2 \<and>
     getChangedKeys (plain_store\<lparr>kb_value := defaultKeyBindings plain_store\<rparr>) = [''save''] \<and>
     kb_value s1 = [(''save'', JStr ''Ctrl-S''), (''find'', JObj [(''key'', JStr ''Ctrl-F'')])] \<and>
     kb_value s2 = [(''save'', JStr ''Ctrl-S''), (''find'', JObj [(''key'', JStr ''Ctrl-F'')])] \<and>
     getChangedKeys (s1\<lparr>kb_value := defaultKeyBindings s1\<rparr>) = []"
proof -
  define s1 where "s1 = projr (reset [] plain_store)"
  define s2 where "s2 = projr (reset [] s1)"
  have r1: "reset [] plain_store = Inr s1"
    by (simp add: s1_def kb_defs plain_store_def)
  have r2: "reset [] s1 = Inr s2"
    by (simp add: s2_def s1_def kb_defs plain_store_def)
  have ed: "editor plain_store =
      Some (Editor [(''save'', JObj [(''name'', JStr ''save'')]), (''find'', JObj [(''name'', JStr ''find'')])])"
    by (simp add: plain_store_def)
  have ch: "getChangedKeys (plain_store\<lparr>kb_value := defaultKeyBindings plain_store\<rparr>) = [''save'']"
    by (simp add: kb_defs plain_store_def)
  have nn: "\<forall>k\<in>set (getChangedKeys (plain_store\<lparr>kb_value := defaultKeyBindings plain_store\<rparr>)).
      \<not> normalizes (Editor [(''save'', JObj [(''name'', JStr ''save'')]), (''find'', JObj [(''name'', JStr ''find'')])])
          (defaultKeyBindings plain_store) k"
    unfolding ch by (simp add: normalizes_def plain_store_def get_prop_def)
  have nan: "nan_free (JObj (defaultKeyBindings plain_store))"
    by (simp add: plain_store_def)
  from reset_twice [OF r1 r2 ed nn nan] r1 r2 ch show ?thesis
    by (auto simp: plain_store_def)
qed

text \<open>
  C8 as stated fails: the default descriptor of \<open>save\<close> has a plain \<open>key\<close> and the editor
  has a command \<open>save\<close>. \<open>reset()\<close> finds \<open>save\<close> changed and \<open>applyBindings\<close> rewrites its
  descriptor to \<open>{bindKey: {win: "Ctrl-S"}}\<close>, which is not the default \<open>{key: "Ctrl-S"}\<close>;
  it is saved as the baseline, so the diff of a second \<open>reset()\<close> finds \<open>save\<close> changed
  again.
\<close>

theorem reset_twice_counterexample:
  "bindE (init (Editor [(''save'', JObj [(''name'', JStr ''save'')])])
            (construct [(''save'', JObj [(''key'', JStr ''Ctrl-S'')])] Missing))
         (update (Patch [(''save'', JObj [(''key'', JStr ''Ctrl-X'')])]) True True) = Inr normalized_store \<and>
   reset [] normalized_store = Inr normalized_store_reset \<and>
   kb_value normalized_store_reset \<noteq> defaultKeyBindings normalized_store_reset \<and>
   getChangedKeys (normalized_store_reset\<lparr>kb_value := defaultKeyBindings normalized_store_reset\<rparr>) = [''save''] \<and>
   getChangedKeys (normalized_store_reset\<lparr>kb_value := defaultKeyBindings normalized_store_reset\<rparr>) \<noteq> []"
  by (simp add: kb_defs normalized_store_def normalized_store_reset_def)

text \<open>
  C9. When the file exists and \<open>readFile\<close> gives \<open>null\<close>, \<open>init\<close> returns normally;
  \<open>value\<close>, the baseline, the listeners, the defaults and the file are what they were and
  nothing is logged (no listener is called, nothing is written). Only the editor handle
  and the initialized flag are recorded, which \<open>init\<close> does before it looks at the file.
  On a store just constructed, \<open>value\<close> is the defaults and there is no baseline.
\<close>

theorem init_unreadable_document:
  "\<not> initialized s \<Longrightarrow> \<not> fs_fails s \<Longrightarrow> key_file s = Unreadable \<Longrightarrow>
   \<exists>s'. init ed s = Inr s' \<and> kb_value s' = kb_value s \<and>
        oldKeyBindings s' = oldKeyBindings s \<and> on_reg s' = on_reg s \<and>
        defaultKeyBindings s' = defaultKeyBindings s \<and> key_file s' = key_file s \<and>
        log s' = log s"
  by (simp add: init_def fs_exists_def fs_readFile_def bindE_def)

theorem init_unreadable_document_witness:
  "\<exists>s'. init (Editor []) (construct [(''save'', JStr ''Ctrl-S'')] Unreadable) = Inr s' \<and>
        kb_value s' = [(''save'', JStr ''Ctrl-S'')] \<and> oldKeyBindings s' = None \<and>
        log s' = []"
  using init_unreadable_document
          [of "construct [(''save'', JStr ''Ctrl-S'')] Unreadable" "Editor []"]
  by (auto simp: construct_def)




end
